theory Spec2Isabelle
  imports Main "HOL-Library.Word" "HOL-Library.Sublist"
begin

section \<open>JavaScript strings\<close>

text \<open>
  A JavaScript string is a sequence of UTF-16 code units. A literal of the source is
  written \<open>js ''...''\<close>: every literal of \<^verbatim>\<open>background.js\<close> that the conversion uses
  is ASCII, so each character is the code unit of its code.
\<close>

type_synonym code_unit = "16 word"
type_synonym jsstring = "code_unit list"

definition js :: "string \<Rightarrow> jsstring" where
  "js s = map of_char s"

definition LF :: code_unit where
  "LF = 0x0A"

text \<open>
  \<^verbatim>\<open>String.prototype.trim\<close> strips the code units that ECMAScript calls WhiteSpace
  or LineTerminator: TAB, LF, VT, FF, CR, SP, NBSP, U+1680, U+2000..U+200A, LS, PS,
  U+202F, U+205F, U+3000 and U+FEFF.
\<close>

definition is_ws :: "code_unit \<Rightarrow> bool" where
  "is_ws c \<longleftrightarrow>
     c = 0x09 \<or> c = 0x0A \<or> c = 0x0B \<or> c = 0x0C \<or> c = 0x0D \<or> c = 0x20 \<or> c = 0xA0 \<or>
     c = 0x1680 \<or> (0x2000 \<le> c \<and> c \<le> 0x200A) \<or> c = 0x2028 \<or> c = 0x2029 \<or>
     c = 0x202F \<or> c = 0x205F \<or> c = 0x3000 \<or> c = 0xFEFF"

definition trim :: "jsstring \<Rightarrow> jsstring" where
  "trim s = rev (dropWhile is_ws (rev (dropWhile is_ws s)))"

text \<open>
  \<^verbatim>\<open>s.replace(/\n{3,}/g, "\n\n")\<close>: the scan goes from left to right; where three or
  more line feeds start, the greedy quantifier takes the whole run of line feeds and two
  line feeds are written for it; anywhere else one code unit is copied.
\<close>

function replace_nl3 :: "jsstring \<Rightarrow> jsstring" where
  "replace_nl3 [] = []"
| "replace_nl3 (c # cs) =
     (let m = takeWhile (\<lambda>x. x = LF) (c # cs) in
      if 3 \<le> length m then [LF, LF] @ replace_nl3 (drop (length m) (c # cs))
      else c # replace_nl3 cs)"
  by pat_completeness auto
termination
  by (relation "measure length") auto

text \<open>
  Line 119 of \<^verbatim>\<open>getMarkdownFromSelection\<close>:
  \<^verbatim>\<open>markdown.replace(/\n{3,}/g, "\n\n").trim()\<close>, the post-processor that the
  specification calls finalize.
\<close>

definition finalize :: "jsstring \<Rightarrow> jsstring" where
  "finalize raw = trim (replace_nl3 raw)"

text \<open>
  \<^verbatim>\<open>String.prototype.toLowerCase\<close>, written out for the code units \<open>A\<close>..\<open>Z\<close>.
  Every other code unit is kept. The full Unicode mapping sends no code unit outside
  \<open>A\<close>..\<open>Z\<close> to an ASCII string except the Kelvin sign (to \<open>k\<close>), and no tag of
  the switch of \<^verbatim>\<open>domToMarkdown\<close> has a \<open>k\<close>, so the switch takes the same branch.
\<close>

definition lower_unit :: "code_unit \<Rightarrow> code_unit" where
  "lower_unit c = (if 0x41 \<le> c \<and> c \<le> 0x5A then c + 0x20 else c)"

definition toLowerCase :: "jsstring \<Rightarrow> jsstring" where
  "toLowerCase s = map lower_unit s"

section \<open>The DOM fragment\<close>

text \<open>
  A node as \<^verbatim>\<open>domToMarkdown\<close> reads it: a text node with its \<^verbatim>\<open>textContent\<close>, an
  element node with its \<^verbatim>\<open>tagName\<close>, its attributes (\<^verbatim>\<open>getAttribute\<close> gives
  \<^verbatim>\<open>null\<close>, here \<open>None\<close>, for a name that is not set) and its \<^verbatim>\<open>childNodes\<close>, or
  a node of any other \<^verbatim>\<open>nodeType\<close> (a comment, for one).
\<close>

datatype node =
    Text jsstring
  | Element jsstring "jsstring \<rightharpoonup> jsstring" "node list"
  | Other

section \<open>The URL resolver\<close>

text \<open>
  \<^verbatim>\<open>new URL(urlStr, base).href\<close> belongs to the browser, not to the repository: it is
  a parameter \<open>newURL\<close> of the model, and so is \<^verbatim>\<open>document.baseURI\<close>. The
  constructor throws a \<^verbatim>\<open>TypeError\<close> where the string does not parse.
\<close>

datatype js_error = TypeError

type_synonym url_ctor = "jsstring \<Rightarrow> jsstring \<Rightarrow> js_error + jsstring"

text \<open>
  \<^verbatim>\<open>toAbsoluteUrl\<close>, lines 25 to 33. \<^verbatim>\<open>!urlStr\<close> holds for \<^verbatim>\<open>null\<close> and for the
  empty string; the \<^verbatim>\<open>catch\<close> returns the string it was given.
\<close>

definition toAbsoluteUrl :: "url_ctor \<Rightarrow> jsstring \<Rightarrow> jsstring option \<Rightarrow> jsstring" where
  "toAbsoluteUrl newURL baseURI urlStr =
     (case urlStr of
        None \<Rightarrow> []
      | Some u \<Rightarrow>
          if u = [] then []
          else (case newURL u baseURI of Inr href \<Rightarrow> href | Inl e \<Rightarrow> u))"

section \<open>The converter\<close>

text \<open>
  \<^verbatim>\<open>domToMarkdown\<close>, lines 36 to 115. The \<^verbatim>\<open>for\<close> loop over \<^verbatim>\<open>childNodes\<close> is the
  left fold that appends each child's fragment to \<open>content\<close>; the \<^verbatim>\<open>switch\<close> is the
  chain of comparisons in the order of its cases. A string is truthy when it is not
  empty.
\<close>

fun domToMarkdown :: "url_ctor \<Rightarrow> jsstring \<Rightarrow> node \<Rightarrow> jsstring" where
  "domToMarkdown newURL baseURI (Text textContent) = textContent"
| "domToMarkdown newURL baseURI (Element tagName getAttribute childNodes) =
     (let tag = toLowerCase tagName;
          content = foldl (\<lambda>acc child. acc @ domToMarkdown newURL baseURI child) [] childNodes
      in
      if tag = js ''b'' \<or> tag = js ''strong'' then
        (if trim content \<noteq> [] then js '' **'' @ content @ js ''** '' else [])
      else if tag = js ''i'' \<or> tag = js ''em'' then
        (if trim content \<noteq> [] then js '' *'' @ content @ js ''* '' else [])
      else if tag = js ''u'' then js '' <u>'' @ content @ js ''</u> ''
      else if tag = js ''h1'' then js ''\<newline># '' @ content @ js ''\<newline>''
      else if tag = js ''h2'' then js ''\<newline>## '' @ content @ js ''\<newline>''
      else if tag = js ''h3'' then js ''\<newline>### '' @ content @ js ''\<newline>''
      else if tag = js ''h4'' then js ''\<newline>#### '' @ content @ js ''\<newline>''
      else if tag = js ''a'' then
        (let href = getAttribute (js ''href'');
             fullHref = toAbsoluteUrl newURL baseURI href
         in if fullHref = [] \<or> prefix (js ''javascript:'') fullHref then content
            else js ''['' @ content @ js '']('' @ fullHref @ js '')'')
      else if tag = js ''code'' then js '' `'' @ content @ js ''` ''
      else if tag = js ''pre'' then
        js ''\<newline>```\<newline>'' @ content @ js ''\<newline>```\<newline>''
      else if tag = js ''li'' then js ''\<newline>- '' @ content
      else if tag = js ''p'' \<or> tag = js ''div'' \<or> tag = js ''section'' \<or> tag = js ''article''
        then js ''\<newline>'' @ content @ js ''\<newline>''
      else if tag = js ''br'' then js ''\<newline>''
      else if tag = js ''img'' then
        (let src = getAttribute (js ''src'');
             fullSrc = toAbsoluteUrl newURL baseURI src;
             alt = (case getAttribute (js ''alt'') of
                      None \<Rightarrow> js ''image''
                    | Some a \<Rightarrow> if a = [] then js ''image'' else a)
         in if fullSrc = [] then []
            else js ''\<newline>!['' @ alt @ js '']('' @ fullSrc @ js '')\<newline>'')
      else content)"
| "domToMarkdown newURL baseURI Other = []"

text \<open>
  \<^verbatim>\<open>getMarkdownFromSelection\<close>, lines 16 to 120. The selection is given by the nodes
  that \<^verbatim>\<open>getRangeAt(0).cloneContents()\<close> yields, \<open>None\<close> when \<^verbatim>\<open>rangeCount\<close> is 0
  (the function then returns \<^verbatim>\<open>null\<close>). The nodes become the children of a new
  \<^verbatim>\<open>div\<close>, whose \<^verbatim>\<open>tagName\<close> in an HTML document is \<^verbatim>\<open>DIV\<close>.
\<close>

definition getMarkdownFromSelection ::
  "url_ctor \<Rightarrow> jsstring \<Rightarrow> node list option \<Rightarrow> jsstring option" where
  "getMarkdownFromSelection newURL baseURI selection =
     (case selection of
        None \<Rightarrow> None
      | Some contents \<Rightarrow>
          (let container = Element (js ''DIV'') Map.empty contents;
               markdown = domToMarkdown newURL baseURI container
           in Some (finalize markdown)))"

section \<open>Trees that differ in attributes the converter does not read\<close>

text \<open>
  Two trees are attribute variants when they have the same shape, texts and tag names,
  and the same attributes at every element whose lower-cased tag is \<open>a\<close> or \<open>img\<close>;
  the attributes of every other element are free.
\<close>

inductive attr_variant :: "node \<Rightarrow> node \<Rightarrow> bool" where
  av_Text: "attr_variant (Text s) (Text s)"
| av_Other: "attr_variant Other Other"
| av_Element:
    "list_all2 attr_variant cs cs' \<Longrightarrow>
     (toLowerCase t = js ''a'' \<or> toLowerCase t = js ''img'' \<longrightarrow> as = as') \<Longrightarrow>
     attr_variant (Element t as cs) (Element t as' cs')"

section \<open>A sample of the browser's URL constructor\<close>

text \<open>
  The values of \<^verbatim>\<open>new URL(urlStr, base).href\<close> at the inputs of the scenarios of the
  specification, as the URL standard gives them: a relative path and an absolute path
  resolved against \<^verbatim>\<open>https://example.com/dir/page.html\<close>, a \<^verbatim>\<open>javascript:\<close> URL,
  which is absolute already, and \<^verbatim>\<open>http://\<close>, which has no host and makes the
  constructor throw. The table has no other entry (the sample throws there); it is
  used at these inputs only, to instantiate the parameter \<open>newURL\<close> at concrete values.
\<close>

definition example_base :: jsstring where
  "example_base = js ''https://example.com/dir/page.html''"

definition example_URL :: url_ctor where
  "example_URL urlStr base =
     (if urlStr = js ''pic.png'' \<and> base = example_base
        then Inr (js ''https://example.com/dir/pic.png'')
      else if urlStr = js ''/x'' \<and> base = example_base
        then Inr (js ''https://example.com/x'')
      else if urlStr = js ''javascript:alert(1)'' \<and> base = example_base
        then Inr (js ''javascript:alert(1)'')
      else Inl TypeError)"

section \<open>The post-processor\<close>

subsection \<open>Collapsing runs of line feeds\<close>

lemma replace_nl3_not_LF: "c \<noteq> LF \<Longrightarrow> replace_nl3 (c # cs) = c # replace_nl3 cs"
  by simp

lemma replace_nl3_Nil_iff: "replace_nl3 s = [] \<longleftrightarrow> s = []"
  by (cases s) (simp_all add: Let_def)

lemma hd_replace_nl3: "hd (replace_nl3 s) = hd s"
proof (cases s)
  case Nil
  then show ?thesis by simp
next
  case (Cons c cs)
  show ?thesis
  proof (cases "3 \<le> length (takeWhile (\<lambda>x. x = LF) (c # cs))")
    case True
    then have "c = LF" by (auto split: if_splits)
    with True Cons show ?thesis by (simp add: Let_def)
  next
    case False
    with Cons show ?thesis by (simp add: Let_def)
  qed
qed

lemma prefix_nl3_run: "prefix [LF, LF, LF] s \<longleftrightarrow> 3 \<le> length (takeWhile (\<lambda>x. x = LF) s)"
proof
  assume "prefix [LF, LF, LF] s"
  then obtain r where "s = [LF, LF, LF] @ r" by (auto simp: prefix_def)
  then show "3 \<le> length (takeWhile (\<lambda>x. x = LF) s)" by simp
next
  assume h: "3 \<le> length (takeWhile (\<lambda>x. x = LF) s)"
  show "prefix [LF, LF, LF] s"
  proof (cases s)
    case Nil with h show ?thesis by simp
  next
    case s1: (Cons a s')
    show ?thesis
    proof (cases s')
      case Nil with h s1 show ?thesis by (simp split: if_splits)
    next
      case s2: (Cons b s'')
      show ?thesis
      proof (cases s'')
        case Nil with h s1 s2 show ?thesis by (simp split: if_splits)
      next
        case (Cons c s''')
        with h s1 s2 show ?thesis by (simp split: if_splits)
      qed
    qed
  qed
qed

lemma run_replace_nl3:
  "takeWhile (\<lambda>x. x = LF) (replace_nl3 s) =
     (let m = takeWhile (\<lambda>x. x = LF) s in if 3 \<le> length m then [LF, LF] else m)"
proof (induction s rule: replace_nl3.induct)
  case 1
  then show ?case by simp
next
  case (2 c cs)
  let ?m = "takeWhile (\<lambda>x. x = LF) (c # cs)"
  show ?case
  proof (cases "3 \<le> length ?m")
    case True
    have rest: "drop (length ?m) (c # cs) = dropWhile (\<lambda>x. x = LF) (c # cs)"
      by (rule dropWhile_eq_drop [symmetric])
    let ?r = "dropWhile (\<lambda>x. x = LF) (c # cs)"
    have "?r = [] \<or> hd ?r \<noteq> LF" using hd_dropWhile [of "\<lambda>x. x = LF" "c # cs"] by blast
    then have "replace_nl3 ?r = [] \<or> hd (replace_nl3 ?r) \<noteq> LF"
      by (auto simp: hd_replace_nl3 replace_nl3_Nil_iff)
    then have "takeWhile (\<lambda>x. x = LF) (replace_nl3 ?r) = []"
      by (cases "replace_nl3 ?r") auto
    moreover have "replace_nl3 (c # cs) = [LF, LF] @ replace_nl3 ?r"
      using True rest by (simp add: Let_def)
    ultimately show ?thesis using True by (simp add: Let_def)
  next
    case False
    then have eq: "replace_nl3 (c # cs) = c # replace_nl3 cs" by (simp add: Let_def)
    show ?thesis
    proof (cases "c = LF")
      case True
      with False have small: "\<not> 3 \<le> length (takeWhile (\<lambda>x. x = LF) cs)" by simp
      have "takeWhile (\<lambda>x. x = LF) (replace_nl3 cs) = takeWhile (\<lambda>x. x = LF) cs"
        using "2.IH"(2) [OF refl False] small by (simp add: Let_def)
      with eq True False show ?thesis by (simp add: Let_def)
    next
      case False
      with eq show ?thesis by (simp add: Let_def)
    qed
  qed
qed

lemma replace_nl3_no_run: "\<not> sublist [LF, LF, LF] (replace_nl3 s)"
proof (induction s rule: replace_nl3.induct)
  case 1
  then show ?case by simp
next
  case (2 c cs)
  let ?m = "takeWhile (\<lambda>x. x = LF) (c # cs)"
  have no_prefix: "\<not> prefix [LF, LF, LF] (replace_nl3 (c # cs))"
    unfolding prefix_nl3_run run_replace_nl3 by (simp add: Let_def)
  show ?case
  proof (cases "3 \<le> length ?m")
    case True
    define r where "r = replace_nl3 (drop (length ?m) (c # cs))"
    have eq: "replace_nl3 (c # cs) = LF # LF # r"
      using True by (simp add: Let_def r_def)
    have "\<not> sublist [LF, LF, LF] r" using "2.IH"(1) [OF refl True] by (simp add: r_def)
    moreover have "\<not> prefix [LF, LF, LF] (LF # r)"
      using no_prefix unfolding eq by (auto simp: prefix_def)
    ultimately show ?thesis using no_prefix unfolding eq
      by (simp only: sublist_Cons_right) blast
  next
    case False
    then have eq: "replace_nl3 (c # cs) = c # replace_nl3 cs" by (simp add: Let_def)
    have "\<not> sublist [LF, LF, LF] (replace_nl3 cs)" using "2.IH"(2) [OF refl False] .
    then show ?thesis using no_prefix unfolding eq
      by (simp only: sublist_Cons_right) blast
  qed
qed

lemma replace_nl3_fixed: "\<not> sublist [LF, LF, LF] s \<Longrightarrow> replace_nl3 s = s"
proof (induction s rule: replace_nl3.induct)
  case 1
  then show ?case by simp
next
  case (2 c cs)
  from "2.prems" have np: "\<not> prefix [LF, LF, LF] (c # cs)" and ns: "\<not> sublist [LF, LF, LF] cs"
    by (simp_all only: sublist_Cons_right) blast+
  from np have small: "\<not> 3 \<le> length (takeWhile (\<lambda>x. x = LF) (c # cs))"
    unfolding prefix_nl3_run .
  then have "replace_nl3 (c # cs) = c # replace_nl3 cs" by (simp add: Let_def)
  with "2.IH"(2) [OF refl small ns] show ?case by simp
qed

lemma sublist_trim: "sublist (trim s) s"
proof -
  have "prefix (trim s) (dropWhile is_ws s)"
    unfolding trim_def by (metis suffix_dropWhile suffix_to_prefix rev_rev_ident)
  then have "sublist (trim s) (dropWhile is_ws s)" by (rule prefix_imp_sublist)
  moreover have "sublist (dropWhile is_ws s) s"
    by (rule suffix_imp_sublist) (rule suffix_dropWhile)
  ultimately show ?thesis by (rule sublist_order.order_trans)
qed

lemma trim_clean: "trim s \<noteq> [] \<Longrightarrow> \<not> is_ws (hd (trim s)) \<and> \<not> is_ws (last (trim s))"
proof -
  assume ne: "trim s \<noteq> []"
  let ?t = "dropWhile is_ws s"
  let ?u = "dropWhile is_ws (rev ?t)"
  have u: "trim s = rev ?u" by (simp add: trim_def)
  with ne have une: "?u \<noteq> []" by simp
  then have "\<not> is_ws (hd ?u)" by (rule hd_dropWhile)
  then have l: "\<not> is_ws (last (trim s))" using une by (simp add: u last_rev)
  have "prefix (trim s) ?t"
    unfolding trim_def by (metis suffix_dropWhile suffix_to_prefix rev_rev_ident)
  then obtain r where t: "?t = trim s @ r" by (auto simp: prefix_def)
  with ne have tne: "?t \<noteq> []" by auto
  then have "\<not> is_ws (hd ?t)" by (rule hd_dropWhile)
  moreover have "hd ?t = hd (trim s)" using ne by (subst t) simp
  ultimately show ?thesis using l by simp
qed

lemma trim_fixed: "s = [] \<or> (\<not> is_ws (hd s) \<and> \<not> is_ws (last s)) \<Longrightarrow> trim s = s"
proof (cases "s = []")
  case True
  then show ?thesis by (simp add: trim_def)
next
  case False
  assume "s = [] \<or> (\<not> is_ws (hd s) \<and> \<not> is_ws (last s))"
  with False have h: "\<not> is_ws (hd s)" and l: "\<not> is_ws (last s)" by simp_all
  have 1: "dropWhile is_ws s = s" using h by (simp add: dropWhile_eq_self_iff)
  have "hd (rev s) = last s" using False by (simp add: hd_rev)
  then have 2: "dropWhile is_ws (rev s) = rev s" using l by (simp add: dropWhile_eq_self_iff)
  show ?thesis by (simp add: trim_def 1 2)
qed


text \<open>
  What the replacement does to a run: \<open>n\<close> line feeds in front of a code unit that is
  not a line feed become two when \<open>n\<close> is 3 or more and are kept otherwise.
\<close>

lemma takeWhile_run: "c \<noteq> LF \<Longrightarrow> takeWhile (\<lambda>x. x = LF) (replicate n LF @ c # cs) = replicate n LF"
  by (induction n) simp_all

lemma replace_nl3_run:
  "c \<noteq> LF \<Longrightarrow>
   replace_nl3 (replicate n LF @ c # cs) =
     (if 3 \<le> n then [LF, LF] else replicate n LF) @ c # replace_nl3 cs"
proof (induction n)
  case 0
  then show ?case by simp
next
  case (Suc n)
  have run: "takeWhile (\<lambda>x. x = LF) (replicate (Suc n) LF @ c # cs) = replicate (Suc n) LF"
    using Suc.prems by (rule takeWhile_run)
  have eq: "replicate (Suc n) LF @ c # cs = LF # (replicate n LF @ c # cs)" by simp
  show ?case
  proof (cases "3 \<le> Suc n")
    case True
    have "replace_nl3 (LF # (replicate n LF @ c # cs)) =
            [LF, LF] @ replace_nl3 (drop (Suc n) (LF # (replicate n LF @ c # cs)))"
      using True run unfolding eq by (simp add: Let_def)
    then show ?thesis using True Suc.prems by simp
  next
    case False
    have "replace_nl3 (LF # (replicate n LF @ c # cs)) = LF # replace_nl3 (replicate n LF @ c # cs)"
      using False run unfolding eq by (simp add: Let_def)
    then show ?thesis using False Suc by simp
  qed
qed

text \<open>The same for a run that ends the string.\<close>

lemma replace_nl3_run_end:
  "replace_nl3 (replicate n LF) = (if 3 \<le> n then [LF, LF] else replicate n LF)"
proof (cases n)
  case 0
  then show ?thesis by simp
next
  case (Suc k)
  have run: "takeWhile (\<lambda>x. x = LF) (LF # replicate k LF) = LF # replicate k LF"
    by (simp add: takeWhile_eq_all_conv)
  show ?thesis
  proof (cases "3 \<le> n")
    case True
    have "replace_nl3 (LF # replicate k LF) =
            [LF, LF] @ replace_nl3 (drop (Suc k) (LF # replicate k LF))"
      using True Suc run by (simp add: Let_def)
    then show ?thesis using True Suc by simp
  next
    case False
    then consider "k = 0" | "k = 1" using Suc by force
    then show ?thesis
    proof cases
      case 1
      with Suc show ?thesis by (simp add: Let_def)
    next
      case 2
      with Suc show ?thesis by (simp add: Let_def)
    qed
  qed
qed

subsection \<open>Idempotence and the shape of the result\<close>

text \<open>
  C2. The post-processor is idempotent: applying
  \<^verbatim>\<open>replace(/\n{3,}/g, "\n\n").trim()\<close> to its own result changes nothing, for every
  string.
\<close>

theorem finalize_idempotent: "finalize (finalize x) = finalize x"
proof -
  have "\<not> sublist [LF, LF, LF] (finalize x)"
    using replace_nl3_no_run [of x] sublist_trim [of "replace_nl3 x"]
    unfolding finalize_def by (blast intro: sublist_order.order_trans)
  then have "replace_nl3 (finalize x) = finalize x" by (rule replace_nl3_fixed)
  moreover have "trim (finalize x) = finalize x"
    unfolding finalize_def using trim_clean [of "replace_nl3 x"] by (intro trim_fixed) blast
  ultimately show ?thesis by (simp add: finalize_def)
qed

text \<open>
  C3. For every input string the result of the post-processor contains no three
  consecutive line feeds (so no run of three or more), and, when it is not empty, neither
  its first nor its last code unit is white space (line terminators included).
\<close>

theorem finalize_clean:
  "\<not> sublist [LF, LF, LF] (finalize s) \<and>
   (finalize s \<noteq> [] \<longrightarrow> \<not> is_ws (hd (finalize s)) \<and> \<not> is_ws (last (finalize s)))"
proof -
  have "\<not> sublist [LF, LF, LF] (finalize s)"
    using replace_nl3_no_run [of s] sublist_trim [of "replace_nl3 s"]
    unfolding finalize_def by (blast intro: sublist_order.order_trans)
  then show ?thesis using trim_clean [of "replace_nl3 s"] by (simp add: finalize_def)
qed

theorem finalize_clean_witness:
  "finalize (js ''\<newline>\<newline>\<newline>\<newline> a\<newline>\<newline>\<newline>b \<newline>'') = js ''a\<newline>\<newline>b'' \<and>
   \<not> sublist [LF, LF, LF] (js ''a\<newline>\<newline>b'') \<and>
   \<not> is_ws (hd (js ''a\<newline>\<newline>b'')) \<and> \<not> is_ws (last (js ''a\<newline>\<newline>b''))"
proof -
  have val: "finalize (js ''\<newline>\<newline>\<newline>\<newline> a\<newline>\<newline>\<newline>b \<newline>'') = js ''a\<newline>\<newline>b''"
    by (simp add: js_def finalize_def trim_def is_ws_def LF_def Let_def)
  have ne: "js ''a\<newline>\<newline>b'' \<noteq> []" by (simp add: js_def)
  from finalize_clean [of "js ''\<newline>\<newline>\<newline>\<newline> a\<newline>\<newline>\<newline>b \<newline>''"] val ne
  show ?thesis by simp
qed


section \<open>The URL resolver never raises\<close>

text \<open>
  C5. The resolver is a total function of its argument: it returns the empty string for
  an absent and for an empty \<open>urlStr\<close>, whatever the base, and where the URL constructor
  throws it returns \<open>urlStr\<close> itself. The only call that can throw is inside the
  \<^verbatim>\<open>try\<close>, so no exception leaves \<^verbatim>\<open>toAbsoluteUrl\<close>.
\<close>

theorem toAbsoluteUrl_never_raises:
  "toAbsoluteUrl newURL baseURI None = [] \<and>
   toAbsoluteUrl newURL baseURI (Some []) = [] \<and>
   (newURL urlStr baseURI = Inl e \<longrightarrow> toAbsoluteUrl newURL baseURI (Some urlStr) = urlStr)"
  by (simp add: toAbsoluteUrl_def)

theorem toAbsoluteUrl_never_raises_witness:
  "example_URL (js ''http://'') example_base = Inl TypeError \<and>
   toAbsoluteUrl example_URL example_base (Some (js ''http://'')) = js ''http://''"
proof -
  have f: "example_URL (js ''http://'') example_base = Inl TypeError"
    by (simp add: example_URL_def js_def)
  from toAbsoluteUrl_never_raises [of example_URL example_base "js ''http://''" TypeError] f
  show ?thesis by simp
qed

section \<open>The rules of the tag table\<close>

lemma content_concat:
  "foldl (\<lambda>acc child. acc @ f child) a xs = a @ concat (map f xs)"
  by (induction xs arbitrary: a) simp_all

lemmas lit = js_def toLowerCase_def lower_unit_def

text \<open>
  C8. An element whose lower-cased tag is \<open>b\<close> or \<open>strong\<close> converts to its content
  between \<^verbatim>\<open> **\<close> and \<^verbatim>\<open>** \<close> (the content itself untrimmed) when the trimmed content
  is not empty, and to the empty string otherwise; an empty \<^verbatim>\<open><strong></strong>\<close>
  converts to the empty string.
\<close>

theorem bold_rule:
  "(toLowerCase tagName = js ''b'' \<or> toLowerCase tagName = js ''strong'' \<longrightarrow>
      domToMarkdown newURL baseURI (Element tagName attrs cs) =
        (let content = concat (map (domToMarkdown newURL baseURI) cs)
         in if trim content \<noteq> [] then js '' **'' @ content @ js ''** '' else [])) \<and>
   domToMarkdown newURL baseURI (Element (js ''strong'') attrs []) = []"
proof (intro conjI impI)
  assume "toLowerCase tagName = js ''b'' \<or> toLowerCase tagName = js ''strong''"
  then show "domToMarkdown newURL baseURI (Element tagName attrs cs) =
        (let content = concat (map (domToMarkdown newURL baseURI) cs)
         in if trim content \<noteq> [] then js '' **'' @ content @ js ''** '' else [])"
    by (elim disjE) (simp_all add: content_concat Let_def)
next
  show "domToMarkdown newURL baseURI (Element (js ''strong'') attrs []) = []"
    by (simp add: lit trim_def)
qed

theorem bold_rule_witness:
  "toLowerCase (js ''B'') = js ''b'' \<and>
   domToMarkdown example_URL example_base (Element (js ''B'') Map.empty [Text (js ''World'')])
     = js '' **World** '' \<and>
   domToMarkdown example_URL example_base (Element (js ''B'') Map.empty [Text (js '' '')]) = []"
proof -
  have t: "toLowerCase (js ''B'') = js ''b''" by (simp add: lit)
  have w: "trim (js ''World'') \<noteq> []" by (simp add: js_def trim_def is_ws_def)
  have e: "trim (js '' '') = []" by (simp add: js_def trim_def is_ws_def)
  note r = bold_rule [THEN conjunct1, rule_format, OF disjI1, OF t]
  have "domToMarkdown example_URL example_base (Element (js ''B'') Map.empty [Text (js ''World'')])
     = js '' **World** ''"
    unfolding r using w by (simp add: Let_def) (simp add: js_def)
  moreover have "domToMarkdown example_URL example_base
      (Element (js ''B'') Map.empty [Text (js '' '')]) = []"
    unfolding r using e by (simp add: Let_def)
  ultimately show ?thesis using t by simp
qed

text \<open>
  C6. An element whose lower-cased tag is \<open>h\<close> followed by the digit of a level from 1
  to 4 converts to a line feed, as many \<open>#\<close> as the level, a space, the content and a
  line feed; \<^verbatim>\<open><h2>Title</h2>\<close>, converted and post-processed, is \<^verbatim>\<open>## Title\<close>.
\<close>

theorem heading_rule:
  "(1 \<le> level \<and> level \<le> 4 \<and> toLowerCase tagName = js ''h'' @ [0x30 + of_nat level] \<longrightarrow>
      domToMarkdown newURL baseURI (Element tagName attrs cs) =
        js ''\<newline>'' @ replicate level (0x23 :: code_unit) @ js '' '' @
        concat (map (domToMarkdown newURL baseURI) cs) @ js ''\<newline>'') \<and>
   finalize (domToMarkdown newURL baseURI (Element (js ''h2'') attrs [Text (js ''Title'')]))
     = js ''## Title''"
proof (intro conjI impI)
  assume h: "1 \<le> level \<and> level \<le> 4 \<and> toLowerCase tagName = js ''h'' @ [0x30 + of_nat level]"
  then consider "level = 1" | "level = 2" | "level = 3" | "level = 4" by force
  then show "domToMarkdown newURL baseURI (Element tagName attrs cs) =
        js ''\<newline>'' @ replicate level (0x23 :: code_unit) @ js '' '' @
        concat (map (domToMarkdown newURL baseURI) cs) @ js ''\<newline>''"
  proof cases
    case 1
    with h have tag: "toLowerCase tagName = js ''h1''" by (simp add: js_def)
    have rep: "replicate level (0x23 :: code_unit) = [0x23]" using 1 by simp
    show ?thesis unfolding rep using tag by (simp add: content_concat Let_def js_def)
  next
    case 2
    with h have tag: "toLowerCase tagName = js ''h2''" by (simp add: js_def)
    have rep: "replicate level (0x23 :: code_unit) = [0x23, 0x23]"
      using 2 by (simp add: numeral_eq_Suc)
    show ?thesis unfolding rep using tag by (simp add: content_concat Let_def js_def)
  next
    case 3
    with h have tag: "toLowerCase tagName = js ''h3''" by (simp add: js_def)
    have rep: "replicate level (0x23 :: code_unit) = [0x23, 0x23, 0x23]"
      using 3 by (simp add: numeral_eq_Suc)
    show ?thesis unfolding rep using tag by (simp add: content_concat Let_def js_def)
  next
    case 4
    with h have tag: "toLowerCase tagName = js ''h4''" by (simp add: js_def)
    have rep: "replicate level (0x23 :: code_unit) = [0x23, 0x23, 0x23, 0x23]"
      using 4 by (simp add: numeral_eq_Suc)
    show ?thesis unfolding rep using tag by (simp add: content_concat Let_def js_def)
  qed
next
  show "finalize (domToMarkdown newURL baseURI (Element (js ''h2'') attrs [Text (js ''Title'')]))
     = js ''## Title''"
    by (simp add: lit finalize_def trim_def is_ws_def LF_def Let_def)
qed

theorem heading_rule_witness:
  "(1::nat) \<le> 3 \<and> (3::nat) \<le> 4 \<and> toLowerCase (js ''H3'') = js ''h'' @ [0x30 + of_nat 3] \<and>
   domToMarkdown example_URL example_base (Element (js ''H3'') Map.empty [Text (js ''Title'')])
     = js ''\<newline>### Title\<newline>''"
proof -
  have t: "toLowerCase (js ''H3'') = js ''h'' @ [0x30 + of_nat 3]" by (simp add: lit)
  have rep: "replicate 3 (0x23 :: code_unit) = [0x23, 0x23, 0x23]"
    by (simp add: numeral_eq_Suc)
  from heading_rule [of 3 "js ''H3''" example_URL example_base Map.empty "[Text (js ''Title'')]"] t
  show ?thesis unfolding rep by (simp add: js_def)
qed

text \<open>
  C4. An element whose lower-cased tag is \<open>a\<close>: \<open>fullHref\<close> is the \<open>href\<close> attribute
  resolved against the base; the element converts to its content when \<open>fullHref\<close> is
  empty or starts with \<^verbatim>\<open>javascript:\<close>, and to \<^verbatim>\<open>[content](fullHref)\<close> otherwise.
  \<^verbatim>\<open><a href="javascript:alert(1)">click</a>\<close> converts to \<^verbatim>\<open>click\<close>, the URL
  constructor giving an absolute URL back as it is wherever it accepts it.
\<close>

theorem anchor_rule:
  "(toLowerCase tagName = js ''a'' \<longrightarrow>
      domToMarkdown newURL baseURI (Element tagName attrs cs) =
        (let content = concat (map (domToMarkdown newURL baseURI) cs);
             fullHref = toAbsoluteUrl newURL baseURI (attrs (js ''href''))
         in if fullHref = [] \<or> prefix (js ''javascript:'') fullHref then content
            else js ''['' @ content @ js '']('' @ fullHref @ js '')'')) \<and>
   ((\<forall>href. newURL (js ''javascript:alert(1)'') baseURI = Inr href \<longrightarrow>
        href = js ''javascript:alert(1)'') \<longrightarrow>
      domToMarkdown newURL baseURI
        (Element (js ''a'') [js ''href'' \<mapsto> js ''javascript:alert(1)''] [Text (js ''click'')])
        = js ''click'')"
proof (intro conjI impI)
  assume "toLowerCase tagName = js ''a''"
  then show "domToMarkdown newURL baseURI (Element tagName attrs cs) =
        (let content = concat (map (domToMarkdown newURL baseURI) cs);
             fullHref = toAbsoluteUrl newURL baseURI (attrs (js ''href''))
         in if fullHref = [] \<or> prefix (js ''javascript:'') fullHref then content
            else js ''['' @ content @ js '']('' @ fullHref @ js '')'')"
    by (simp add: content_concat Let_def js_def)
next
  let ?j = "js ''javascript:alert(1)''"
  assume h: "\<forall>href. newURL ?j baseURI = Inr href \<longrightarrow> href = ?j"
  have "toAbsoluteUrl newURL baseURI (Some ?j) = ?j"
  proof (cases "newURL ?j baseURI")
    case (Inl e)
    then show ?thesis by (simp add: toAbsoluteUrl_def js_def)
  next
    case (Inr href)
    with h have "href = ?j" by blast
    with Inr show ?thesis by (simp add: toAbsoluteUrl_def js_def)
  qed
  then show "domToMarkdown newURL baseURI
        (Element (js ''a'') [js ''href'' \<mapsto> ?j] [Text (js ''click'')]) = js ''click''"
    by (simp add: lit Let_def)
qed

theorem anchor_rule_witness:
  "toLowerCase (js ''A'') = js ''a'' \<and>
   domToMarkdown example_URL example_base
     (Element (js ''A'') [js ''href'' \<mapsto> js ''/x''] [Text (js ''go'')])
     = js ''[go](https://example.com/x)'' \<and>
   example_URL (js ''javascript:alert(1)'') example_base = Inr (js ''javascript:alert(1)'') \<and>
   domToMarkdown example_URL example_base
     (Element (js ''a'') [js ''href'' \<mapsto> js ''javascript:alert(1)''] [Text (js ''click'')])
     = js ''click''"
proof -
  have t: "toLowerCase (js ''A'') = js ''a''" by (simp add: lit)
  have u: "example_URL (js ''javascript:alert(1)'') example_base = Inr (js ''javascript:alert(1)'')"
    by (simp add: example_URL_def example_base_def js_def)
  have r: "toAbsoluteUrl example_URL example_base (Some (js ''/x'')) = js ''https://example.com/x''"
    by (simp add: toAbsoluteUrl_def example_URL_def example_base_def js_def)
  from anchor_rule [of "js ''A''" example_URL example_base "[js ''href'' \<mapsto> js ''/x'']"
      "[Text (js ''go'')]"] t u r
  show ?thesis by (simp add: Let_def js_def) 
qed

text \<open>
  C7. An element whose lower-cased tag is \<open>img\<close>: \<open>fullSrc\<close> is the \<open>src\<close> attribute
  resolved against the base; the element converts to the empty string when \<open>fullSrc\<close> is
  empty and to \<^verbatim>\<open>![alt](fullSrc)\<close> between two line feeds otherwise, \<open>alt\<close> being the
  \<open>alt\<close> attribute, or \<^verbatim>\<open>image\<close> when that is absent or empty; the children do not
  appear in the result. With the base \<^verbatim>\<open>https://example.com/dir/page.html\<close>, against
  which the URL constructor resolves \<^verbatim>\<open>pic.png\<close> to
  \<^verbatim>\<open>https://example.com/dir/pic.png\<close>, the element \<^verbatim>\<open><img src="pic.png">\<close>,
  converted and post-processed, is \<^verbatim>\<open>![image](https://example.com/dir/pic.png)\<close>.
\<close>

theorem img_rule:
  "(toLowerCase tagName = js ''img'' \<longrightarrow>
      domToMarkdown newURL baseURI (Element tagName attrs cs) =
        (let fullSrc = toAbsoluteUrl newURL baseURI (attrs (js ''src''));
             alt = (case attrs (js ''alt'') of
                      None \<Rightarrow> js ''image''
                    | Some a \<Rightarrow> if a = [] then js ''image'' else a)
         in if fullSrc = [] then []
            else js ''\<newline>!['' @ alt @ js '']('' @ fullSrc @ js '')\<newline>'')) \<and>
   (newURL (js ''pic.png'') (js ''https://example.com/dir/page.html'')
        = Inr (js ''https://example.com/dir/pic.png'') \<longrightarrow>
      finalize (domToMarkdown newURL (js ''https://example.com/dir/page.html'')
        (Element (js ''img'') [js ''src'' \<mapsto> js ''pic.png''] cs))
        = js ''![image](https://example.com/dir/pic.png)'')"
proof (intro conjI impI)
  assume "toLowerCase tagName = js ''img''"
  then show "domToMarkdown newURL baseURI (Element tagName attrs cs) =
        (let fullSrc = toAbsoluteUrl newURL baseURI (attrs (js ''src''));
             alt = (case attrs (js ''alt'') of
                      None \<Rightarrow> js ''image''
                    | Some a \<Rightarrow> if a = [] then js ''image'' else a)
         in if fullSrc = [] then []
            else js ''\<newline>!['' @ alt @ js '']('' @ fullSrc @ js '')\<newline>'')"
    by (simp add: Let_def js_def)
next
  assume "newURL (js ''pic.png'') (js ''https://example.com/dir/page.html'')
        = Inr (js ''https://example.com/dir/pic.png'')"
  then have "toAbsoluteUrl newURL (js ''https://example.com/dir/page.html'') (Some (js ''pic.png''))
      = js ''https://example.com/dir/pic.png''"
    by (simp add: toAbsoluteUrl_def js_def)
  then show "finalize (domToMarkdown newURL (js ''https://example.com/dir/page.html'')
        (Element (js ''img'') [js ''src'' \<mapsto> js ''pic.png''] cs))
        = js ''![image](https://example.com/dir/pic.png)''"
    by (simp add: lit finalize_def trim_def is_ws_def LF_def Let_def)
qed

theorem img_rule_witness:
  "toLowerCase (js ''IMG'') = js ''img'' \<and>
   domToMarkdown example_URL example_base
     (Element (js ''IMG'') [js ''src'' \<mapsto> js ''pic.png'', js ''alt'' \<mapsto> js ''logo''] [])
     = js ''\<newline>![logo](https://example.com/dir/pic.png)\<newline>'' \<and>
   example_URL (js ''pic.png'') (js ''https://example.com/dir/page.html'')
     = Inr (js ''https://example.com/dir/pic.png'') \<and>
   finalize (domToMarkdown example_URL (js ''https://example.com/dir/page.html'')
     (Element (js ''img'') [js ''src'' \<mapsto> js ''pic.png''] []))
     = js ''![image](https://example.com/dir/pic.png)''"
proof -
  have t: "toLowerCase (js ''IMG'') = js ''img''" by (simp add: lit)
  have u: "example_URL (js ''pic.png'') (js ''https://example.com/dir/page.html'')
     = Inr (js ''https://example.com/dir/pic.png'')"
    by (simp add: example_URL_def example_base_def js_def)
  have r: "toAbsoluteUrl example_URL example_base (Some (js ''pic.png''))
     = js ''https://example.com/dir/pic.png''"
    by (simp add: toAbsoluteUrl_def example_URL_def example_base_def js_def)
  from img_rule [of "js ''IMG''" example_URL example_base
      "[js ''src'' \<mapsto> js ''pic.png'', js ''alt'' \<mapsto> js ''logo'']" "[]"] t u r
  show ?thesis by (simp add: Let_def js_def)
qed

text \<open>
  C9. With the same attributes and children, an element with tag \<open>b\<close> converts as the
  one with tag \<open>strong\<close> does, and an element with tag \<open>i\<close> as the one with tag
  \<open>em\<close>.
\<close>

theorem tag_synonyms:
  "domToMarkdown newURL baseURI (Element (js ''b'') attrs cs) =
     domToMarkdown newURL baseURI (Element (js ''strong'') attrs cs) \<and>
   domToMarkdown newURL baseURI (Element (js ''i'') attrs cs) =
     domToMarkdown newURL baseURI (Element (js ''em'') attrs cs)"
  by (simp add: lit Let_def)

section \<open>Attributes outside links and images\<close>

lemma attr_variant_refl: "attr_variant n n"
proof (induction n)
  case (Text s)
  show ?case by (rule av_Text)
next
  case (Element t as cs)
  then have "list_all2 attr_variant cs cs" by (simp add: list_all2_same)
  then show ?case by (rule av_Element) simp
next
  case Other
  show ?case by (rule av_Other)
qed

lemma domToMarkdown_unread_attrs:
  assumes "toLowerCase t \<noteq> js ''a''" and "toLowerCase t \<noteq> js ''img''"
    and "map (domToMarkdown newURL baseURI) cs = map (domToMarkdown newURL baseURI) cs'"
  shows "domToMarkdown newURL baseURI (Element t as cs) =
         domToMarkdown newURL baseURI (Element t as' cs')"
  using assms by (simp add: content_concat Let_def)

lemma domToMarkdown_same_attrs:
  assumes "map (domToMarkdown newURL baseURI) cs = map (domToMarkdown newURL baseURI) cs'"
  shows "domToMarkdown newURL baseURI (Element t as cs) =
         domToMarkdown newURL baseURI (Element t as cs')"
  using assms by (simp add: content_concat Let_def)

text \<open>
  C10. Two trees that differ only in the attributes of elements whose lower-cased tag is
  neither \<open>a\<close> nor \<open>img\<close> convert to the same string.
\<close>

theorem attribute_noninterference:
  "attr_variant n n' \<Longrightarrow> domToMarkdown newURL baseURI n = domToMarkdown newURL baseURI n'"
proof (induction rule: attr_variant.induct)
  case (av_Text s)
  show ?case by simp
next
  case av_Other
  show ?case by simp
next
  case (av_Element cs cs' t as as')
  from av_Element(1)
  have kids: "map (domToMarkdown newURL baseURI) cs = map (domToMarkdown newURL baseURI) cs'"
    by (induction rule: list_all2_induct) simp_all
  show ?case
  proof (cases "toLowerCase t = js ''a'' \<or> toLowerCase t = js ''img''")
    case True
    with av_Element(2) have "as = as'" by blast
    then show ?thesis using domToMarkdown_same_attrs [OF kids, of t as]
      by (simp del: domToMarkdown.simps)
  next
    case False
    with kids show ?thesis by (intro domToMarkdown_unread_attrs) simp_all
  qed
qed

theorem attribute_noninterference_witness:
  "attr_variant
     (Element (js ''div'') [js ''class'' \<mapsto> js ''x'']
        [Element (js ''a'') [js ''href'' \<mapsto> js ''/x''] [Text (js ''go'')]])
     (Element (js ''div'') [js ''id'' \<mapsto> js ''y'']
        [Element (js ''a'') [js ''href'' \<mapsto> js ''/x''] [Text (js ''go'')]]) \<and>
   [js ''class'' \<mapsto> js ''x''] \<noteq> [js ''id'' \<mapsto> js ''y''] \<and>
   domToMarkdown example_URL example_base
     (Element (js ''div'') [js ''class'' \<mapsto> js ''x'']
        [Element (js ''a'') [js ''href'' \<mapsto> js ''/x''] [Text (js ''go'')]]) =
   domToMarkdown example_URL example_base
     (Element (js ''div'') [js ''id'' \<mapsto> js ''y'']
        [Element (js ''a'') [js ''href'' \<mapsto> js ''/x''] [Text (js ''go'')]])"
proof -
  let ?a = "Element (js ''a'') [js ''href'' \<mapsto> js ''/x''] [Text (js ''go'')]"
  have "attr_variant ?a ?a" by (rule attr_variant_refl)
  then have "list_all2 attr_variant [?a] [?a]" by simp
  moreover have "toLowerCase (js ''div'') \<noteq> js ''a'' \<and> toLowerCase (js ''div'') \<noteq> js ''img''"
    by (simp add: lit)
  ultimately have v: "attr_variant (Element (js ''div'') [js ''class'' \<mapsto> js ''x''] [?a])
      (Element (js ''div'') [js ''id'' \<mapsto> js ''y''] [?a])"
    by (intro av_Element) simp_all
  have d: "[js ''class'' \<mapsto> js ''x''] \<noteq> [js ''id'' \<mapsto> js ''y'']"
  proof
    assume "[js ''class'' \<mapsto> js ''x''] = [js ''id'' \<mapsto> js ''y'']"
    then have "[js ''class'' \<mapsto> js ''x''] (js ''id'') = [js ''id'' \<mapsto> js ''y''] (js ''id'')"
      by simp
    then show False by (simp add: js_def)
  qed
  from attribute_noninterference [OF v, of example_URL example_base] v d
  show ?thesis by simp
qed

section \<open>The scenario of a paragraph with a bold word\<close>

text \<open>
  C1, as the specification states it, fails: the text node \<^verbatim>\<open>Hello \<close> ends with a
  space and the rule of \<open>b\<close> puts another space in front of \<^verbatim>\<open>**World**\<close>, so the
  result is not \<^verbatim>\<open>Hello **World**\<close>.
\<close>

theorem hello_world_counterexample:
  "finalize (domToMarkdown example_URL example_base
     (Element (js ''p'') Map.empty
        [Text (js ''Hello ''), Element (js ''b'') Map.empty [Text (js ''World'')]]))
   \<noteq> js ''Hello **World**''"
  by (simp add: lit finalize_def trim_def is_ws_def LF_def Let_def)

text \<open>
  C1, amended. For every base URL (and every URL constructor and attributes), the tree
  \<^verbatim>\<open><p>Hello <b>World</b></p>\<close>, converted and post-processed, is
  \<^verbatim>\<open>Hello  **World**\<close>, with two spaces between the words; the same string comes out
  of \<^verbatim>\<open>getMarkdownFromSelection\<close> when the tree is the selection.
\<close>

theorem hello_world_two_spaces:
  "finalize (domToMarkdown newURL baseURI
     (Element (js ''p'') attrs
        [Text (js ''Hello ''), Element (js ''b'') attrs' [Text (js ''World'')]]))
     = js ''Hello  **World**'' \<and>
   getMarkdownFromSelection newURL baseURI
     (Some [Element (js ''p'') attrs
        [Text (js ''Hello ''), Element (js ''b'') attrs' [Text (js ''World'')]]])
     = Some (js ''Hello  **World**'')"
  by (simp add: getMarkdownFromSelection_def lit finalize_def trim_def is_ws_def LF_def Let_def)

end
